theory Spec2Isabelle
  imports Main
begin

section \<open>Strings, objects and sets of the host language\<close>

text \<open>
  Strings are lists of characters. DNS names and record payloads are ASCII text, and the
  case conversion below is the ASCII one: \<open>A\<close>..\<open>Z\<close> go to \<open>a\<close>..\<open>z\<close>, every
  other character stays.
\<close>

definition toLowerCase_char :: "char \<Rightarrow> char" where
  "toLowerCase_char c =
     (case map_of (zip ''ABCDEFGHIJKLMNOPQRSTUVWXYZ'' ''abcdefghijklmnopqrstuvwxyz'') c of
        None \<Rightarrow> c
      | Some l \<Rightarrow> l)"

definition toLowerCase :: "string \<Rightarrow> string" where
  "toLowerCase s = map toLowerCase_char s"

definition startsWith :: "string \<Rightarrow> string \<Rightarrow> bool" where
  "startsWith s p = (take (length p) s = p)"

definition endsWith :: "string \<Rightarrow> string \<Rightarrow> bool" where
  "endsWith s p = (length p \<le> length s \<and> drop (length s - length p) s = p)"

text \<open>\<open>s.split(sep)\<close> for a one-character separator: always at least one piece.\<close>

fun split :: "char \<Rightarrow> string \<Rightarrow> string list" where
  "split sep [] = [[]]"
| "split sep (c # cs) =
     (if c = sep then [] # split sep cs
      else (case split sep cs of [] \<Rightarrow> [[c]] | t # ts \<Rightarrow> (c # t) # ts))"

text \<open>\<open>xs.slice(1)\<close>.\<close>

definition slice1 :: "'a list \<Rightarrow> 'a list" where
  "slice1 xs = drop 1 xs"

text \<open>Decimal rendering of a number inside a template string.\<close>

definition digit_char :: "nat \<Rightarrow> char" where
  "digit_char d = ''0123456789'' ! (d mod 10)"

fun show_nat :: "nat \<Rightarrow> string" where
  "show_nat n = (if n < 10 then [digit_char n] else show_nat (n div 10) @ [digit_char (n mod 10)])"

declare show_nat.simps [simp del]

definition show_int :: "int \<Rightarrow> string" where
  "show_int i = (if i < 0 then CHR ''-'' # show_nat (nat (- i)) else show_nat (nat i))"

text \<open>
  A plain object with string keys is the list of its entries in the order
  \<open>Object.entries\<close> enumerates them. Reading a property is \<open>map_of\<close>; writing one
  replaces the value of an existing key in place and appends a new key at the end.
\<close>

type_synonym 'v obj = "(string \<times> 'v) list"

fun obj_set :: "'v obj \<Rightarrow> string \<Rightarrow> 'v \<Rightarrow> 'v obj" where
  "obj_set [] k v = [(k, v)]"
| "obj_set ((k', v') # kvs) k v =
     (if k' = k then (k, v) # kvs else (k', v') # obj_set kvs k v)"

text \<open>
  A \<open>Set\<close> is the list of its members in insertion order, without repetition;
  its \<open>size\<close> is the length of that list and \<open>has\<close> is membership.
\<close>

definition Set_add :: "'a list \<Rightarrow> 'a \<Rightarrow> 'a list" where
  "Set_add s x = (if x \<in> set s then s else s @ [x])"

definition new_Set :: "'a list \<Rightarrow> 'a list" where
  "new_Set xs = fold (\<lambda>x s. Set_add s x) xs []"

section \<open>types.ts\<close>

text \<open>
  Field \<open>type\<close> of a DNS record is \<open>rtype\<close> here, and a TTL is a whole number of
  seconds.
\<close>

record DNSRecord =
  name :: string
  rtype :: nat
  TTL :: int
  data :: string

record DNSResponse =
  Status :: nat
  TC :: bool
  RD :: bool
  RA :: bool
  AD :: bool
  CD :: bool
  Question :: "(string \<times> nat) list"
  Answer :: "DNSRecord list option"
  Authority :: "DNSRecord list option"
  Additional :: "DNSRecord list option"

record ResolverResult =
  resolver :: string
  records :: "DNSRecord list"
  hasError :: bool
  error :: "string option"

record DNSQueryResult =
  recordType :: string
  primaryRecords :: "DNSRecord list"
  propagation :: "ResolverResult obj"

type_synonym AllDNSResults = "DNSQueryResult obj"

datatype severity = Error | Warning | Info

text \<open>
  The \<open>details\<close> payload of an issue is untyped in the source; each constructor is
  one of the object shapes the rules build, with the fields in source order.
\<close>

datatype details =
    NSDetails "string list" "(string list) obj"
  | CNAMEDetails "DNSRecord list"
  | AAAADetails nat nat
  | SPFDetails string
  | TTLDetails string int string
  | DNSSECDetails string

record DiagnosticIssue =
  type :: string
  severity :: severity
  message :: string
  details :: "details option"

record Summary =
  errors :: nat
  warnings :: nat
  info :: nat

record DiagnosticResult =
  issues :: "DiagnosticIssue list"
  summary :: Summary

section \<open>constants.ts\<close>

definition DNS_RECORD_TYPES :: "nat obj" where
  "DNS_RECORD_TYPES =
     [(''A'', 1), (''AAAA'', 28), (''CNAME'', 5), (''MX'', 15), (''NS'', 2),
      (''TXT'', 16), (''SOA'', 6), (''CAA'', 257), (''RRSIG'', 46)]"

definition RESOLVERS :: "string obj" where
  "RESOLVERS =
     [(''CLOUDFLARE'', ''https://cloudflare-dns.com/dns-query''),
      (''GOOGLE'', ''https://dns.google/resolve''),
      (''QUAD9'', ''https://dns.quad9.net/dns-query'')]"

definition RESOLVERS_CLOUDFLARE :: string where
  "RESOLVERS_CLOUDFLARE = ''https://cloudflare-dns.com/dns-query''"

definition RESOLVERS_GOOGLE :: string where
  "RESOLVERS_GOOGLE = ''https://dns.google/resolve''"

definition QUERY_RECORD_TYPES :: "string list" where
  "QUERY_RECORD_TYPES = [''A'', ''AAAA'', ''CNAME'', ''MX'', ''NS'', ''TXT'', ''SOA'', ''CAA'']"

definition MIN_RECOMMENDED :: int where
  "MIN_RECOMMENDED = 300"

definition MAX_RECOMMENDED :: int where
  "MAX_RECOMMENDED = 86400"

section \<open>The runtime\<close>

text \<open>
  What the program cannot decide by itself. \<open>fetch\<close> answers a request for a URL
  (the method and the \<open>Accept\<close> header are the same in every call): the promise is
  rejected, or a response arrives with its \<open>ok\<close> flag, status, status text and the
  body as \<open>response.json()\<close> parses it (\<open>None\<close> when parsing throws).
  \<open>encodeURIComponent\<close> returns \<open>None\<close> where it throws \<open>URIError\<close>.
\<close>

datatype fetch_outcome =
    FetchRejected
  | HttpResponse bool nat string "DNSResponse option"

record runtime =
  encodeURIComponent :: "string \<Rightarrow> string option"
  fetch :: "string \<Rightarrow> fetch_outcome"

section \<open>dns.ts\<close>

subsection \<open>queryDNS\<close>

text \<open>
  Everything inside the \<open>try\<close> block that throws ends in the \<open>catch\<close>,
  which returns \<open>null\<close>: an unknown record type, a rejected request, a response
  that is not \<open>ok\<close>, a body that does not parse. The record type is looked up
  among the keys the table \<open>DNS_RECORD_TYPES\<close> itself has. Both branches of the URL
  construction are the same text in the source.
\<close>

definition queryUrl :: "string \<Rightarrow> string \<Rightarrow> nat \<Rightarrow> string" where
  "queryUrl resolverUrl encoded typeNumber =
     (if resolverUrl = RESOLVERS_GOOGLE
      then resolverUrl @ ''?name='' @ encoded @ ''&type='' @ show_nat typeNumber
      else resolverUrl @ ''?name='' @ encoded @ ''&type='' @ show_nat typeNumber)"

definition queryDNS :: "runtime \<Rightarrow> string \<Rightarrow> string \<Rightarrow> string \<Rightarrow> DNSResponse option" where
  "queryDNS env domain recType resolverUrl =
     (case map_of DNS_RECORD_TYPES recType of
        None \<Rightarrow> None
      | Some typeNumber \<Rightarrow>
          if typeNumber = 0 then None
          else
            (case encodeURIComponent env domain of
               None \<Rightarrow> None
             | Some encoded \<Rightarrow>
                 (case fetch env (queryUrl resolverUrl encoded typeNumber) of
                    FetchRejected \<Rightarrow> None
                  | HttpResponse ok status statusText body \<Rightarrow>
                      if \<not> ok then None else body)))"

subsection \<open>queryAllRecords\<close>

text \<open>
  \<open>answer_or_empty\<close> is \<open>response.Answer || []\<close> and \<open>primary_entry\<close> the
  entry one callback builds. Each of the eight concurrent callbacks writes its entry into
  \<open>results\<close> when its query settles, so the parameter \<open>settled\<close> is the order in
  which the queries of \<open>QUERY_RECORD_TYPES\<close> settle, one of its permutations.
\<close>

definition answer_or_empty :: "DNSResponse \<Rightarrow> DNSRecord list" where
  "answer_or_empty response = (case Answer response of None \<Rightarrow> [] | Some recs \<Rightarrow> recs)"

definition primary_entry :: "runtime \<Rightarrow> string \<Rightarrow> string \<Rightarrow> DNSQueryResult" where
  "primary_entry env domain recType =
     (let response = queryDNS env domain recType RESOLVERS_CLOUDFLARE;
          recs = (case response of None \<Rightarrow> [] | Some resp \<Rightarrow> answer_or_empty resp)
      in \<lparr>recordType = recType, primaryRecords = recs, propagation = []\<rparr>)"

definition queryAllRecords :: "runtime \<Rightarrow> string list \<Rightarrow> string \<Rightarrow> AllDNSResults" where
  "queryAllRecords env settled domain =
     fold (\<lambda>recordType results. obj_set results recordType (primary_entry env domain recordType))
          settled []"

subsection \<open>checkPropagation\<close>

text \<open>
  The callback run for each entry of \<open>RESOLVERS\<close>; \<open>settled\<close> is the order in
  which the resolvers' queries settle, a permutation of \<open>Object.entries(RESOLVERS)\<close>.
\<close>

definition resolver_result :: "string \<Rightarrow> DNSResponse option \<Rightarrow> ResolverResult" where
  "resolver_result nm response =
     (case response of
        None \<Rightarrow> \<lparr>resolver = nm, records = [], hasError = True, error = Some ''Query failed''\<rparr>
      | Some resp \<Rightarrow>
          \<lparr>resolver = nm, records = answer_or_empty resp, hasError = False, error = None\<rparr>)"

definition checkPropagation ::
    "runtime \<Rightarrow> (string \<times> string) list \<Rightarrow> string \<Rightarrow> string \<Rightarrow> ResolverResult obj" where
  "checkPropagation env settled domain recType =
     fold (\<lambda>(nm, resolverUrl) propagation.
             obj_set propagation resolverUrl
               (resolver_result nm (queryDNS env domain recType resolverUrl)))
          settled []"

subsection \<open>queryDNSWithPropagation\<close>

text \<open>
  The second round of requests happens after the first one has settled, so it has a
  runtime of its own (\<open>env'\<close>), and each record type its own settling order.
\<close>

definition queryDNSWithPropagation ::
    "runtime \<Rightarrow> string list \<Rightarrow> runtime \<Rightarrow> (string \<Rightarrow> (string \<times> string) list) \<Rightarrow> string
     \<Rightarrow> AllDNSResults" where
  "queryDNSWithPropagation env settled env' settled' domain =
     (let results = queryAllRecords env settled domain in
      map (\<lambda>(recordType, queryResult).
             (recordType,
              if 0 < length (primaryRecords queryResult)
              then queryResult\<lparr>propagation :=
                     checkPropagation env' (settled' recordType) domain recordType\<rparr>
              else queryResult))
          results)"

section \<open>diagnose.ts\<close>

subsection \<open>validateSPF\<close>

text \<open>
  The regular expression \<open>/^[+\-~?]?(all|include|a|mx|ptr|ip4|ip6|exists|redirect|exp)/i\<close>:
  anchored at the start only, an optional qualifier character, then one of the
  alternatives as a prefix, letters compared without case. The matcher first tries
  to consume a qualifier and falls back to consuming none.
\<close>

definition mechanism_names :: "string list" where
  "mechanism_names =
     [''all'', ''include'', ''a'', ''mx'', ''ptr'', ''ip4'', ''ip6'', ''exists'', ''redirect'', ''exp'']"

definition starts_mechanism :: "string \<Rightarrow> bool" where
  "starts_mechanism s = list_ex (\<lambda>m. startsWith (toLowerCase s) m) mechanism_names"

definition validMechanisms_test :: "string \<Rightarrow> bool" where
  "validMechanisms_test s =
     (case s of
        [] \<Rightarrow> starts_mechanism s
      | c # cs \<Rightarrow> (if c \<in> set ''+-~?'' \<and> starts_mechanism cs then True else starts_mechanism s))"

fun validateSPF_parts :: "string list \<Rightarrow> bool" where
  "validateSPF_parts [] = True"
| "validateSPF_parts (part # parts) =
     (if part = [] then validateSPF_parts parts
      else if part = ''all'' then validateSPF_parts parts
      else if \<not> validMechanisms_test part then False
      else validateSPF_parts parts)"

definition validateSPF :: "string \<Rightarrow> bool" where
  "validateSPF spfRecord =
     (if \<not> startsWith spfRecord ''v=spf1'' then False
      else validateSPF_parts (slice1 (split CHR '' '' spfRecord)))"

subsection \<open>checkNSMismatch\<close>

text \<open>
  The loop over the entries of \<open>nsResults.propagation\<close>; its state is the object
  \<open>resolverNS\<close> and the flag \<open>hasMismatch\<close>.
\<close>

definition ns_differs :: "string list \<Rightarrow> string list \<Rightarrow> bool" where
  "ns_differs nsSet primaryNS =
     (length nsSet \<noteq> length primaryNS \<or> \<not> list_all (\<lambda>ns. ns \<in> set primaryNS) nsSet)"

fun ns_loop :: "string list \<Rightarrow> ResolverResult obj \<Rightarrow> (string list) obj \<times> bool
    \<Rightarrow> (string list) obj \<times> bool" where
  "ns_loop primaryNS [] st = st"
| "ns_loop primaryNS ((rkey, result) # rest) (resolverNS, hasMismatch) =
     (if hasError result then ns_loop primaryNS rest (resolverNS, hasMismatch)
      else
        let nsSet = new_Set (map (\<lambda>r. toLowerCase (data r)) (records result));
            resolverNS' = obj_set resolverNS rkey nsSet
        in ns_loop primaryNS rest
             (resolverNS', if ns_differs nsSet primaryNS then True else hasMismatch))"

definition checkNSMismatch :: "AllDNSResults \<Rightarrow> DiagnosticIssue list" where
  "checkNSMismatch dnsResults =
     (case map_of dnsResults ''NS'' of
        None \<Rightarrow> []
      | Some nsResults \<Rightarrow>
          if primaryRecords nsResults = [] then []
          else
            let primaryNS = new_Set (map (\<lambda>r. toLowerCase (data r)) (primaryRecords nsResults));
                (resolverNS, hasMismatch) = ns_loop primaryNS (propagation nsResults) ([], False)
            in if hasMismatch
               then [\<lparr>type = ''ns_mismatch'', severity = Error,
                      message = ''NS records differ across DNS resolvers'',
                      details = Some (NSDetails primaryNS resolverNS)\<rparr>]
               else [])"

subsection \<open>checkCNAMEAtApex\<close>

definition has_records :: "DNSQueryResult option \<Rightarrow> bool" where
  "has_records r = (case r of None \<Rightarrow> False | Some q \<Rightarrow> 0 < length (primaryRecords q))"

definition checkCNAMEAtApex :: "AllDNSResults \<Rightarrow> DiagnosticIssue list" where
  "checkCNAMEAtApex dnsResults =
     (let cnameResults = map_of dnsResults ''CNAME'';
          aResults = map_of dnsResults ''A'';
          aaaaResults = map_of dnsResults ''AAAA''
      in case cnameResults of
           None \<Rightarrow> []
         | Some cname \<Rightarrow>
             if primaryRecords cname = [] then []
             else
               let cnameAtApex =
                     list_ex (\<lambda>r. let nm = toLowerCase (name r) in endsWith nm ''.'' \<or> nm = ''@'')
                       (primaryRecords cname)
               in if cnameAtApex \<and> (has_records aResults \<or> has_records aaaaResults)
                  then [\<lparr>type = ''cname_at_apex'', severity = Error,
                         message = ''CNAME record found at apex (root domain) - RFC violation'',
                         details = Some (CNAMEDetails (primaryRecords cname))\<rparr>]
                  else [])"

subsection \<open>checkMissingAAAA\<close>

definition checkMissingAAAA :: "AllDNSResults \<Rightarrow> DiagnosticIssue list" where
  "checkMissingAAAA dnsResults =
     (let aResults = map_of dnsResults ''A'';
          aaaaResults = map_of dnsResults ''AAAA''
      in case aResults of
           None \<Rightarrow> []
         | Some a \<Rightarrow>
             if 0 < length (primaryRecords a) then
               (if (case aaaaResults of None \<Rightarrow> True | Some aaaa \<Rightarrow> primaryRecords aaaa = [])
                then [\<lparr>type = ''missing_aaaa'', severity = Warning,
                       message = ''Domain has A records but no AAAA records - not IPv6 ready'',
                       details = Some (AAAADetails (length (primaryRecords a)) 0)\<rparr>]
                else [])
             else [])"

subsection \<open>checkEmailSetup\<close>

text \<open>
  \<open>hasSPF\<close> and \<open>hasDMARC\<close> are \<open>undefined\<close> when the TXT entry is absent, which
  the negations below treat as false.
\<close>

definition hasSPF :: "DNSQueryResult option \<Rightarrow> bool" where
  "hasSPF txtResults =
     (case txtResults of
        None \<Rightarrow> False
      | Some txt \<Rightarrow> list_ex (\<lambda>r. startsWith (toLowerCase (data r)) ''v=spf1'') (primaryRecords txt))"

definition hasDMARC :: "DNSQueryResult option \<Rightarrow> bool" where
  "hasDMARC txtResults =
     (case txtResults of
        None \<Rightarrow> False
      | Some txt \<Rightarrow> list_ex (\<lambda>r. startsWith (toLowerCase (data r)) ''v=dmarc1'') (primaryRecords txt))"

definition checkEmailSetup :: "AllDNSResults \<Rightarrow> DiagnosticIssue list" where
  "checkEmailSetup dnsResults =
     (let mxResults = map_of dnsResults ''MX'';
          txtResults = map_of dnsResults ''TXT'';
          hasMX = has_records mxResults;
          hasTXT = has_records txtResults
      in if \<not> hasMX \<and> \<not> hasTXT
         then [\<lparr>type = ''missing_email_setup'', severity = Info,
                message = ''No MX or TXT records found - domain may not be configured for email'',
                details = None\<rparr>]
         else
           (if hasMX \<and> \<not> hasSPF txtResults
            then [\<lparr>type = ''missing_spf'', severity = Warning,
                   message = ''MX records present but no SPF record found'',
                   details = None\<rparr>]
            else [])
           @
           (if hasMX \<and> \<not> hasDMARC txtResults
            then [\<lparr>type = ''missing_dmarc'', severity = Info,
                   message = ''MX records present but no DMARC record found'',
                   details = None\<rparr>]
            else []))"

subsection \<open>checkSPFSyntax\<close>

definition spf_issue :: "DNSRecord \<Rightarrow> DiagnosticIssue" where
  "spf_issue r =
     \<lparr>type = ''spf_syntax_error'', severity = Error,
      message = ''SPF record has syntax errors'',
      details = Some (SPFDetails (data r))\<rparr>"

fun spf_loop :: "DNSRecord list \<Rightarrow> DiagnosticIssue list" where
  "spf_loop [] = []"
| "spf_loop (r # rs) =
     (if \<not> validateSPF (data r) then spf_issue r # spf_loop rs else spf_loop rs)"

definition checkSPFSyntax :: "AllDNSResults \<Rightarrow> DiagnosticIssue list" where
  "checkSPFSyntax dnsResults =
     (case map_of dnsResults ''TXT'' of
        None \<Rightarrow> []
      | Some txtResults \<Rightarrow>
          if primaryRecords txtResults = [] then []
          else
            let spfRecords =
                  filter (\<lambda>r. startsWith (toLowerCase (data r)) ''v=spf1'')
                    (primaryRecords txtResults)
            in spf_loop spfRecords)"

subsection \<open>checkTTL\<close>

definition ttl_issues :: "string \<Rightarrow> DNSRecord \<Rightarrow> DiagnosticIssue list" where
  "ttl_issues recType r =
     (let ttl = TTL r in
      if ttl < MIN_RECOMMENDED
      then [\<lparr>type = ''ttl_too_low'', severity = Warning,
             message = ''TTL too low ('' @ show_int ttl @ ''s) for '' @ recType
                       @ '' record - may cause excessive DNS queries'',
             details = Some (TTLDetails recType ttl (''>= '' @ show_int MIN_RECOMMENDED @ ''s''))\<rparr>]
      else if ttl > MAX_RECOMMENDED
      then [\<lparr>type = ''ttl_too_high'', severity = Info,
             message = ''TTL very high ('' @ show_int ttl @ ''s) for '' @ recType
                       @ '' record - changes will take longer to propagate'',
             details = Some (TTLDetails recType ttl (''<= '' @ show_int MAX_RECOMMENDED @ ''s''))\<rparr>]
      else [])"

definition checkTTL :: "AllDNSResults \<Rightarrow> DiagnosticIssue list" where
  "checkTTL dnsResults =
     concat (map (\<lambda>(recType, queryResult).
                   concat (map (ttl_issues recType) (primaryRecords queryResult)))
                 dnsResults)"

subsection \<open>checkDNSSEC\<close>

definition checkDNSSEC :: "AllDNSResults \<Rightarrow> string \<Rightarrow> DiagnosticIssue list" where
  "checkDNSSEC dnsResults domain =
     [\<lparr>type = ''dnssec_check'', severity = Info,
       message = ''DNSSEC status check requires explicit RRSIG query - not fully implemented'',
       details = Some (DNSSECDetails ''DNSSEC validation typically requires specialized queries'')\<rparr>]"

subsection \<open>analyzeDNS\<close>

definition all_issues :: "AllDNSResults \<Rightarrow> string \<Rightarrow> DiagnosticIssue list" where
  "all_issues dnsResults domain =
     checkNSMismatch dnsResults @ checkCNAMEAtApex dnsResults @ checkMissingAAAA dnsResults
     @ checkEmailSetup dnsResults @ checkSPFSyntax dnsResults @ checkTTL dnsResults
     @ checkDNSSEC dnsResults domain"

definition analyzeDNS :: "AllDNSResults \<Rightarrow> string \<Rightarrow> DiagnosticResult" where
  "analyzeDNS dnsResults domain =
     (let iss = all_issues dnsResults domain;
          summ = \<lparr>errors = length (filter (\<lambda>i. severity i = Error) iss),
                  warnings = length (filter (\<lambda>i. severity i = Warning) iss),
                  info = length (filter (\<lambda>i. severity i = Info) iss)\<rparr>
      in \<lparr>issues = iss, summary = summ\<rparr>)"

section \<open>Vocabulary of the properties\<close>

text \<open>
  The records the primary resolver returned for a record type: the \<open>primaryRecords\<close>
  of its entry, and none when the entry is absent.
\<close>

definition records_of :: "AllDNSResults \<Rightarrow> string \<Rightarrow> DNSRecord list" where
  "records_of r t = (case map_of r t of None \<Rightarrow> [] | Some q \<Rightarrow> primaryRecords q)"

definition issues_of_type :: "string \<Rightarrow> DiagnosticIssue list \<Rightarrow> DiagnosticIssue list" where
  "issues_of_type t xs = filter (\<lambda>i. type i = t) xs"

text \<open>
  A transport failure of one request: the request is rejected, the status is not a
  success, or the body cannot be parsed.
\<close>

definition transport_failure :: "fetch_outcome \<Rightarrow> bool" where
  "transport_failure outcome =
     (case outcome of FetchRejected \<Rightarrow> True | HttpResponse ok status statusText body \<Rightarrow> \<not> ok \<or> body = None)"

subsection \<open>Concrete inputs\<close>

definition ns_rec :: "string \<Rightarrow> DNSRecord" where
  "ns_rec d = \<lparr>name = ''example.com'', rtype = 2, TTL = 3600, data = d\<rparr>"

definition mx_rec :: "string \<Rightarrow> DNSRecord" where
  "mx_rec d = \<lparr>name = ''example.com'', rtype = 15, TTL = 3600, data = d\<rparr>"

definition txt_rec :: "string \<Rightarrow> DNSRecord" where
  "txt_rec d = \<lparr>name = ''example.com'', rtype = 16, TTL = 3600, data = d\<rparr>"

text \<open>An A record with a short TTL and a malformed SPF record.\<close>

definition example_results :: AllDNSResults where
  "example_results =
     [(''A'', \<lparr>recordType = ''A'',
              primaryRecords =
                [\<lparr>name = ''example.com'', rtype = 1, TTL = 60, data = ''93.184.216.34''\<rparr>],
              propagation = []\<rparr>),
      (''TXT'', \<lparr>recordType = ''TXT'',
              primaryRecords = [txt_rec ''v=spf1 frobnicate''],
              propagation = []\<rparr>)]"

text \<open>Two primary name servers; one resolver answers with a third one.\<close>

definition ns_divergent_entry :: DNSQueryResult where
  "ns_divergent_entry =
     \<lparr>recordType = ''NS'',
      primaryRecords = [ns_rec ''NS1.example.com'', ns_rec ''ns2.example.com''],
      propagation =
        [(''https://dns.google/resolve'',
          \<lparr>resolver = ''GOOGLE'', records = [ns_rec ''ns3.example.com''],
           hasError = False, error = None\<rparr>)]\<rparr>"

definition ns_divergent_results :: AllDNSResults where
  "ns_divergent_results = [(''NS'', ns_divergent_entry)]"

text \<open>No primary name server, while a resolver that answered reports one.\<close>

definition ns_empty_primary_results :: AllDNSResults where
  "ns_empty_primary_results =
     [(''NS'', \<lparr>recordType = ''NS'', primaryRecords = [],
               propagation =
                 [(''https://dns.google/resolve'',
                   \<lparr>resolver = ''GOOGLE'', records = [ns_rec ''ns3.example.com''],
                    hasError = False, error = None\<rparr>)]\<rparr>)]"

text \<open>Two primary name servers; the only other resolver failed, as \<open>checkPropagation\<close> records it.\<close>

definition ns_failed_resolver_results :: AllDNSResults where
  "ns_failed_resolver_results =
     [(''NS'', \<lparr>recordType = ''NS'',
               primaryRecords = [ns_rec ''ns1.example.com'', ns_rec ''ns2.example.com''],
               propagation =
                 [(''https://dns.google/resolve'',
                   \<lparr>resolver = ''GOOGLE'', records = [],
                    hasError = True, error = Some ''Query failed''\<rparr>)]\<rparr>)]"

text \<open>As before, with a failure-marked outcome that still carries a foreign record.\<close>

definition ns_failed_with_records_results :: AllDNSResults where
  "ns_failed_with_records_results =
     [(''NS'', \<lparr>recordType = ''NS'',
               primaryRecords = [ns_rec ''ns1.example.com'', ns_rec ''ns2.example.com''],
               propagation =
                 [(''https://dns.google/resolve'',
                   \<lparr>resolver = ''GOOGLE'', records = [ns_rec ''ns3.example.com''],
                    hasError = True, error = Some ''Query failed''\<rparr>)]\<rparr>)]"

text \<open>Mail exchangers without any TXT record.\<close>

definition mx_only_results :: AllDNSResults where
  "mx_only_results =
     [(''MX'', \<lparr>recordType = ''MX'', primaryRecords = [mx_rec ''10 mail.example.com.''],
               propagation = []\<rparr>),
      (''TXT'', \<lparr>recordType = ''TXT'', primaryRecords = [], propagation = []\<rparr>)]"

text \<open>Every type present and empty, as under total resolver unavailability.\<close>

definition all_empty_results :: AllDNSResults where
  "all_empty_results =
     map (\<lambda>t. (t, \<lparr>recordType = t, primaryRecords = [], propagation = []\<rparr>)) QUERY_RECORD_TYPES"

text \<open>An SPF record whose version tag is written with a capital letter.\<close>

definition uppercase_spf_results :: AllDNSResults where
  "uppercase_spf_results =
     [(''TXT'', \<lparr>recordType = ''TXT'',
               primaryRecords = [txt_rec ''V=spf1 include:_spf.example.com -all''],
               propagation = []\<rparr>)]"

text \<open>The answer of a resolver that knows one A record.\<close>

definition a_response :: DNSResponse where
  "a_response =
     \<lparr>Status = 0, TC = False, RD = True, RA = True, AD = False, CD = False,
      Question = [(''example.com'', 1)],
      Answer = Some [\<lparr>name = ''example.com'', rtype = 1, TTL = 3600, data = ''93.184.216.34''\<rparr>],
      Authority = None, Additional = None\<rparr>"

text \<open>Total resolver unavailability.\<close>

definition env_down :: runtime where
  "env_down = \<lparr>encodeURIComponent = Some, fetch = (\<lambda>u. FetchRejected)\<rparr>"

text \<open>A network where only Cloudflare answers, and only for the A records of one domain.\<close>

definition env_partial :: runtime where
  "env_partial =
     \<lparr>encodeURIComponent = Some,
      fetch = (\<lambda>u. if u = ''https://cloudflare-dns.com/dns-query?name=example.com&type=1''
                    then HttpResponse True 200 ''OK'' (Some a_response)
                    else if u = ''https://dns.google/resolve?name=example.com&type=1''
                    then HttpResponse False 503 ''Service Unavailable'' None
                    else FetchRejected)\<rparr>"

section \<open>Sets and objects\<close>

lemma set_new_Set_aux: "set (fold (\<lambda>x s. Set_add s x) xs acc) = set acc \<union> set xs"
  by (induction xs arbitrary: acc) (auto simp: Set_add_def)

lemma distinct_new_Set_aux: "distinct acc \<Longrightarrow> distinct (fold (\<lambda>x s. Set_add s x) xs acc)"
  by (induction xs arbitrary: acc) (auto simp: Set_add_def)

lemma set_new_Set [simp]: "set (new_Set xs) = set xs"
  by (simp add: new_Set_def set_new_Set_aux)

lemma distinct_new_Set [simp]: "distinct (new_Set xs)"
  by (simp add: new_Set_def distinct_new_Set_aux)

lemma length_new_Set: "length (new_Set xs) = card (set xs)"
  using distinct_card [OF distinct_new_Set, of xs] by simp

lemma map_of_obj_set: "map_of (obj_set kvs k v) = (map_of kvs)(k \<mapsto> v)"
  by (induction kvs) (auto simp: fun_eq_iff)

lemma keys_obj_set: "fst ` set (obj_set kvs k v) = insert k (fst ` set kvs)"
proof -
  have "dom (map_of (obj_set kvs k v)) = insert k (dom (map_of kvs))"
    by (simp add: map_of_obj_set)
  then show ?thesis by (simp add: dom_map_of_conv_image_fst)
qed

lemma distinct_obj_set: "distinct (map fst kvs) \<Longrightarrow> distinct (map fst (obj_set kvs k v))"
proof (induction kvs)
  case Nil
  show ?case by simp
next
  case (Cons e kvs)
  obtain k' v' where e: "e = (k', v')" by (cases e)
  show ?case
  proof (cases "k' = k")
    case True
    with Cons e show ?thesis by simp
  next
    case False
    have "k' \<notin> fst ` set (obj_set kvs k v)"
      using Cons.prems e False by (simp add: keys_obj_set)
    with Cons e False show ?thesis by simp
  qed
qed

lemma obj_set_fresh: "k \<notin> fst ` set kvs \<Longrightarrow> obj_set kvs k v = kvs @ [(k, v)]"
  by (induction kvs) auto

lemma obj_set_subset: "set (obj_set kvs k v) \<subseteq> insert (k, v) (set kvs)"
  by (induction kvs) (auto split: if_splits)

lemma length_obj_distinct: "distinct (map fst kvs) \<Longrightarrow> length kvs = card (fst ` set kvs)"
  using distinct_card [of "map fst kvs"] by simp

lemma fold_obj_keys:
  "fst ` set (fold (\<lambda>x r. obj_set r (key x) (val x)) xs acc) = fst ` set acc \<union> key ` set xs"
proof (induction xs arbitrary: acc)
  case Nil
  show ?case by simp
next
  case (Cons x xs)
  show ?case by (simp add: Cons.IH keys_obj_set)
qed

lemma fold_obj_distinct:
  "distinct (map fst acc) \<Longrightarrow> distinct (map fst (fold (\<lambda>x r. obj_set r (key x) (val x)) xs acc))"
proof (induction xs arbitrary: acc)
  case Nil
  then show ?case by simp
next
  case (Cons x xs)
  show ?case using Cons.IH [OF distinct_obj_set [OF Cons.prems]] by simp
qed

lemma fold_obj_lookup:
  "inj_on key (set xs) \<Longrightarrow> x \<in> set xs \<Longrightarrow>
     map_of (fold (\<lambda>x r. obj_set r (key x) (val x)) xs acc) (key x) = Some (val x)"
proof (induction xs rule: rev_induct)
  case Nil
  then show ?case by simp
next
  case (snoc y xs)
  show ?case
  proof (cases "x = y")
    case True
    then show ?thesis by (simp add: map_of_obj_set)
  next
    case False
    with snoc.prems have xin: "x \<in> set xs" by simp
    have inj: "inj_on key (set xs)" using snoc.prems(1) by (auto simp: inj_on_def)
    have "key x \<noteq> key y" using snoc.prems False by (auto simp: inj_on_def)
    then show ?thesis using snoc.IH [OF inj xin] by (simp add: map_of_obj_set)
  qed
qed

lemma fold_obj_pred:
  "(\<And>k v. (k, v) \<in> set acc \<Longrightarrow> P v) \<Longrightarrow> (\<And>x. P (val x)) \<Longrightarrow>
   (k, v) \<in> set (fold (\<lambda>x r. obj_set r (key x) (val x)) xs acc) \<Longrightarrow> P v"
proof (induction xs arbitrary: acc)
  case Nil
  then show ?case by simp
next
  case (Cons x xs)
  have "\<And>k v. (k, v) \<in> set (obj_set acc (key x) (val x)) \<Longrightarrow> P v"
  proof -
    fix k v
    assume "(k, v) \<in> set (obj_set acc (key x) (val x))"
    then have "(k, v) = (key x, val x) \<or> (k, v) \<in> set acc"
      using obj_set_subset [of acc "key x" "val x"] by auto
    then show "P v" using Cons.prems(1,2) by auto
  qed
  then show ?case using Cons.IH [of "obj_set acc (key x) (val x)"] Cons.prems(2,3) by simp
qed

section \<open>Evaluation on concrete inputs\<close>

lemmas eval_defs =
  analyzeDNS_def all_issues_def checkNSMismatch_def checkCNAMEAtApex_def checkMissingAAAA_def
  checkEmailSetup_def checkSPFSyntax_def checkTTL_def checkDNSSEC_def ttl_issues_def
  has_records_def hasSPF_def hasDMARC_def spf_issue_def validateSPF_def validMechanisms_test_def
  starts_mechanism_def mechanism_names_def startsWith_def endsWith_def toLowerCase_def
  toLowerCase_char_def slice1_def show_int_def show_nat.simps digit_char_def
  MIN_RECOMMENDED_def MAX_RECOMMENDED_def new_Set_def Set_add_def ns_differs_def Let_def
  records_of_def ns_rec_def mx_rec_def txt_rec_def

lemmas dns_eval_defs =
  queryAllRecords_def primary_entry_def checkPropagation_def queryDNSWithPropagation_def
  queryDNS_def queryUrl_def
  resolver_result_def answer_or_empty_def transport_failure_def
  DNS_RECORD_TYPES_def RESOLVERS_def RESOLVERS_CLOUDFLARE_def RESOLVERS_GOOGLE_def
  QUERY_RECORD_TYPES_def show_nat.simps digit_char_def Let_def

section \<open>Properties of dns.ts\<close>

subsection \<open>queryAllRecords\<close>

lemma queryDNS_transport_failure:
  assumes "map_of DNS_RECORD_TYPES t = Some n"
    and "encodeURIComponent env d = Some e"
    and "transport_failure (fetch env (queryUrl u e n))"
  shows "queryDNS env d t u = None"
  using assms
  by (auto simp: queryDNS_def transport_failure_def split: fetch_outcome.splits)

lemma card_types: "card (set QUERY_RECORD_TYPES) = 8"
  by (simp add: QUERY_RECORD_TYPES_def)

text \<open>
  Claim C2. For every runtime, every domain and every order in which the eight queries settle,
  \<open>queryAllRecords\<close> returns an object with exactly the eight supported record types as
  keys, each once. The entry of a type holds the answer of the primary resolver, and the
  empty list when the query failed; in particular when the request was rejected, came back
  with a status that is not a success, or had a body that does not parse. No failure removes
  an entry or aborts the aggregation.
\<close>

theorem queryAllRecords_one_entry_per_type:
  assumes "distinct settled" and "set settled = set QUERY_RECORD_TYPES"
  shows "distinct (map fst (queryAllRecords env settled domain))
    \<and> set (map fst (queryAllRecords env settled domain))
        = {''A'', ''AAAA'', ''CNAME'', ''MX'', ''NS'', ''TXT'', ''SOA'', ''CAA''}
    \<and> length (queryAllRecords env settled domain) = 8
    \<and> (\<forall>t \<in> set QUERY_RECORD_TYPES.
          map_of (queryAllRecords env settled domain) t =
            Some \<lparr>recordType = t,
                  primaryRecords = (case queryDNS env domain t RESOLVERS_CLOUDFLARE of
                                      None \<Rightarrow> [] | Some resp \<Rightarrow> answer_or_empty resp),
                  propagation = []\<rparr>)
    \<and> (\<forall>t \<in> set QUERY_RECORD_TYPES. \<forall>n e.
          map_of DNS_RECORD_TYPES t = Some n \<and> encodeURIComponent env domain = Some e
            \<and> transport_failure (fetch env (queryUrl RESOLVERS_CLOUDFLARE e n)) \<longrightarrow>
          map_of (queryAllRecords env settled domain) t =
            Some \<lparr>recordType = t, primaryRecords = [], propagation = []\<rparr>)"
proof -
  let ?res = "queryAllRecords env settled domain"
  have d: "distinct (map fst ?res)"
    unfolding queryAllRecords_def by (rule fold_obj_distinct) simp
  have k: "fst ` set ?res = set QUERY_RECORD_TYPES"
    unfolding queryAllRecords_def using assms(2) by (simp add: fold_obj_keys)
  have k': "set (map fst ?res) = {''A'', ''AAAA'', ''CNAME'', ''MX'', ''NS'', ''TXT'', ''SOA'', ''CAA''}"
    using k by (simp add: QUERY_RECORD_TYPES_def)
  have l: "length ?res = 8"
    using length_obj_distinct [OF d] k card_types by simp
  have m: "\<And>t. t \<in> set QUERY_RECORD_TYPES \<Longrightarrow> map_of ?res t = Some (primary_entry env domain t)"
    unfolding queryAllRecords_def
    using fold_obj_lookup [of "\<lambda>x. x" settled _ "primary_entry env domain" "[]"] assms(2)
    by simp
  have f: "\<And>t n e. t \<in> set QUERY_RECORD_TYPES \<Longrightarrow> map_of DNS_RECORD_TYPES t = Some n \<Longrightarrow>
      encodeURIComponent env domain = Some e \<Longrightarrow>
      transport_failure (fetch env (queryUrl RESOLVERS_CLOUDFLARE e n)) \<Longrightarrow>
      map_of ?res t = Some \<lparr>recordType = t, primaryRecords = [], propagation = []\<rparr>"
    using m queryDNS_transport_failure by (simp add: primary_entry_def Let_def)
  show ?thesis
  proof (intro conjI ballI allI impI)
    show "distinct (map fst ?res)" by (rule d)
    show "set (map fst ?res) = {''A'', ''AAAA'', ''CNAME'', ''MX'', ''NS'', ''TXT'', ''SOA'', ''CAA''}"
      by (rule k')
    show "length ?res = 8" by (rule l)
  next
    fix t assume "t \<in> set QUERY_RECORD_TYPES"
    then show "map_of ?res t =
            Some \<lparr>recordType = t,
                  primaryRecords = (case queryDNS env domain t RESOLVERS_CLOUDFLARE of
                                      None \<Rightarrow> [] | Some resp \<Rightarrow> answer_or_empty resp),
                  propagation = []\<rparr>"
      using m by (simp add: primary_entry_def Let_def)
  next
    fix t n e
    assume "t \<in> set QUERY_RECORD_TYPES"
      and "map_of DNS_RECORD_TYPES t = Some n \<and> encodeURIComponent env domain = Some e
            \<and> transport_failure (fetch env (queryUrl RESOLVERS_CLOUDFLARE e n))"
    then show "map_of ?res t = Some \<lparr>recordType = t, primaryRecords = [], propagation = []\<rparr>"
      using f by blast
  qed
qed

theorem queryAllRecords_one_entry_per_type_witness:
  "map fst (queryAllRecords env_partial (rev QUERY_RECORD_TYPES) ''example.com'')
     = [''CAA'', ''SOA'', ''TXT'', ''NS'', ''MX'', ''CNAME'', ''AAAA'', ''A'']
   \<and> length (queryAllRecords env_partial (rev QUERY_RECORD_TYPES) ''example.com'') = 8
   \<and> map_of (queryAllRecords env_partial (rev QUERY_RECORD_TYPES) ''example.com'') ''AAAA''
       = Some \<lparr>recordType = ''AAAA'', primaryRecords = [], propagation = []\<rparr>"
proof -
  have h1: "distinct (rev QUERY_RECORD_TYPES)" by (simp add: QUERY_RECORD_TYPES_def)
  have h2: "set (rev QUERY_RECORD_TYPES) = set QUERY_RECORD_TYPES" by simp
  have k: "map fst (queryAllRecords env_partial (rev QUERY_RECORD_TYPES) ''example.com'')
     = [''CAA'', ''SOA'', ''TXT'', ''NS'', ''MX'', ''CNAME'', ''AAAA'', ''A'']"
    by (simp add: env_partial_def a_response_def dns_eval_defs)
  have f: "''AAAA'' \<in> set QUERY_RECORD_TYPES
     \<and> map_of DNS_RECORD_TYPES ''AAAA'' = Some 28
     \<and> encodeURIComponent env_partial ''example.com'' = Some ''example.com''
     \<and> transport_failure (fetch env_partial (queryUrl RESOLVERS_CLOUDFLARE ''example.com'' 28))"
    by (simp add: env_partial_def dns_eval_defs)
  show ?thesis
    using queryAllRecords_one_entry_per_type [OF h1 h2, of env_partial "''example.com''"] k f
    by blast
qed

subsection \<open>queryDNSWithPropagation\<close>

lemma queryAllRecords_propagation_empty:
  "(t, q) \<in> set (queryAllRecords env settled domain) \<Longrightarrow> propagation q = []"
  unfolding queryAllRecords_def
  by (rule fold_obj_pred [where P = "\<lambda>q. propagation q = []" and acc = "[]"
        and val = "primary_entry env domain" and key = "\<lambda>x. x" and xs = settled and k = t])
     (simp_all add: primary_entry_def Let_def)

lemma checkPropagation_fold:
  "checkPropagation env settled domain t =
     fold (\<lambda>x r. obj_set r (snd x) (resolver_result (fst x) (queryDNS env domain t (snd x)))) settled []"
  by (simp add: checkPropagation_def case_prod_unfold)

lemma inj_resolver_urls: "inj_on snd (set RESOLVERS)"
  by (simp add: RESOLVERS_def)

lemma card_resolver_urls: "card (snd ` set RESOLVERS) = 3"
  by (simp add: RESOLVERS_def)

lemma checkPropagation_distinct: "distinct (map fst (checkPropagation env settled domain t))"
  unfolding checkPropagation_fold by (rule fold_obj_distinct) simp

lemma checkPropagation_keys:
  "fst ` set (checkPropagation env settled domain t) = snd ` set settled"
  unfolding checkPropagation_fold by (simp add: fold_obj_keys)

lemma checkPropagation_lookup:
  assumes "set settled = set RESOLVERS" and "(nm, url) \<in> set RESOLVERS"
  shows "map_of (checkPropagation env settled domain t) url
           = Some (resolver_result nm (queryDNS env domain t url))"
proof -
  have inj: "inj_on snd (set settled)" using inj_resolver_urls assms(1) by simp
  have mem: "(nm, url) \<in> set settled" using assms by simp
  show ?thesis
    unfolding checkPropagation_fold
    using fold_obj_lookup [OF inj mem, of "\<lambda>x. resolver_result (fst x) (queryDNS env domain t (snd x))" "[]"]
    by simp
qed

text \<open>
  Claim C3. In the result of the full pipeline, every entry without primary records has an empty
  propagation object: propagation is populated only for a type whose \<open>primaryRecords\<close>
  is non-empty. Such a type does get the outcomes of all resolvers, and the primary
  records are those of \<open>queryAllRecords\<close>.
\<close>

theorem propagation_only_with_primary_records:
  "(\<forall>(t, q) \<in> set (queryDNSWithPropagation env settled env' settled' domain).
      primaryRecords q = [] \<longrightarrow> propagation q = [])
   \<and> ((\<forall>t. set (settled' t) = set RESOLVERS) \<longrightarrow>
        (\<forall>(t, q) \<in> set (queryDNSWithPropagation env settled env' settled' domain).
           primaryRecords q \<noteq> [] \<longrightarrow> set (map fst (propagation q)) = snd ` set RESOLVERS))
   \<and> map (\<lambda>(t, q). (t, primaryRecords q)) (queryDNSWithPropagation env settled env' settled' domain)
       = map (\<lambda>(t, q). (t, primaryRecords q)) (queryAllRecords env settled domain)"
proof (intro conjI)
  show "\<forall>(t, q) \<in> set (queryDNSWithPropagation env settled env' settled' domain).
      primaryRecords q = [] \<longrightarrow> propagation q = []"
    using queryAllRecords_propagation_empty [of _ _ env settled domain]
    by (auto simp: queryDNSWithPropagation_def Let_def split: if_splits)
next
  show "(\<forall>t. set (settled' t) = set RESOLVERS) \<longrightarrow>
        (\<forall>(t, q) \<in> set (queryDNSWithPropagation env settled env' settled' domain).
           primaryRecords q \<noteq> [] \<longrightarrow> set (map fst (propagation q)) = snd ` set RESOLVERS)"
  proof (intro impI ballI, clarify)
    fix t q
    assume s: "\<forall>t. set (settled' t) = set RESOLVERS"
      and m: "(t, q) \<in> set (queryDNSWithPropagation env settled env' settled' domain)"
      and ne: "primaryRecords q \<noteq> []"
    from m obtain q0 where
      q: "q = (if 0 < length (primaryRecords q0)
               then q0\<lparr>propagation := checkPropagation env' (settled' t) domain t\<rparr> else q0)"
      by (auto simp: queryDNSWithPropagation_def Let_def)
    with ne have "propagation q = checkPropagation env' (settled' t) domain t"
      by (auto split: if_splits)
    then show "set (map fst (propagation q)) = snd ` set RESOLVERS"
      using checkPropagation_keys [of env' "settled' t" domain t] s by simp
  qed
next
  show "map (\<lambda>(t, q). (t, primaryRecords q)) (queryDNSWithPropagation env settled env' settled' domain)
       = map (\<lambda>(t, q). (t, primaryRecords q)) (queryAllRecords env settled domain)"
    by (simp add: queryDNSWithPropagation_def Let_def case_prod_unfold)
qed

theorem propagation_only_with_primary_records_witness:
  "map (\<lambda>(t, q). (t, length (primaryRecords q), length (propagation q)))
      (queryDNSWithPropagation env_partial QUERY_RECORD_TYPES env_partial (\<lambda>t. RESOLVERS) ''example.com'')
    = [(''A'', 1, 3), (''AAAA'', 0, 0), (''CNAME'', 0, 0), (''MX'', 0, 0), (''NS'', 0, 0),
       (''TXT'', 0, 0), (''SOA'', 0, 0), (''CAA'', 0, 0)]
   \<and> list_all (\<lambda>(t, q). propagation q = [])
        (filter (\<lambda>(t, q). primaryRecords q = [])
           (queryDNSWithPropagation env_partial QUERY_RECORD_TYPES env_partial
              (\<lambda>t. RESOLVERS) ''example.com''))"
proof -
  have "map (\<lambda>(t, q). (t, length (primaryRecords q), length (propagation q)))
      (queryDNSWithPropagation env_partial QUERY_RECORD_TYPES env_partial (\<lambda>t. RESOLVERS) ''example.com'')
    = [(''A'', 1, 3), (''AAAA'', 0, 0), (''CNAME'', 0, 0), (''MX'', 0, 0), (''NS'', 0, 0),
       (''TXT'', 0, 0), (''SOA'', 0, 0), (''CAA'', 0, 0)]"
    by (simp add: env_partial_def a_response_def dns_eval_defs)
  moreover have "list_all (\<lambda>(t, q). propagation q = [])
        (filter (\<lambda>(t, q). primaryRecords q = [])
           (queryDNSWithPropagation env_partial QUERY_RECORD_TYPES env_partial
              (\<lambda>t. RESOLVERS) ''example.com''))"
    using propagation_only_with_primary_records
      [of env_partial QUERY_RECORD_TYPES env_partial "\<lambda>t. RESOLVERS" "''example.com''"]
    unfolding list_all_iff by fastforce
  ultimately show ?thesis by simp
qed

subsection \<open>checkPropagation\<close>

text \<open>
  Claim C4. For every domain and record type, \<open>checkPropagation\<close> returns one outcome per
  configured resolver. The outcome of a resolver is determined by that resolver's query
  alone: a transport failure (rejected request, status that is not a success, body that
  does not parse) becomes the failure-marked outcome with the cause \<open>Query failed\<close>,
  nothing is raised, and whatever happens to the other resolvers, in a different runtime
  or settling order, leaves it unchanged.
\<close>

theorem checkPropagation_outcome_per_resolver:
  assumes "distinct settled" and "set settled = set RESOLVERS"
  shows "distinct (map fst (checkPropagation env settled domain t))
    \<and> set (map fst (checkPropagation env settled domain t)) = snd ` set RESOLVERS
    \<and> length (checkPropagation env settled domain t) = length RESOLVERS
    \<and> (\<forall>(nm, url) \<in> set RESOLVERS.
          map_of (checkPropagation env settled domain t) url
            = Some (resolver_result nm (queryDNS env domain t url)))
    \<and> (\<forall>(nm, url) \<in> set RESOLVERS. \<forall>n e.
          map_of DNS_RECORD_TYPES t = Some n \<and> encodeURIComponent env domain = Some e
            \<and> transport_failure (fetch env (queryUrl url e n)) \<longrightarrow>
          map_of (checkPropagation env settled domain t) url
            = Some \<lparr>resolver = nm, records = [], hasError = True, error = Some ''Query failed''\<rparr>)
    \<and> (\<forall>(nm, url) \<in> set RESOLVERS. \<forall>env' settled'.
          set settled' = set RESOLVERS
            \<and> queryDNS env' domain t url = queryDNS env domain t url \<longrightarrow>
          map_of (checkPropagation env' settled' domain t) url
            = map_of (checkPropagation env settled domain t) url)"
proof -
  let ?p = "checkPropagation env settled domain t"
  have d: "distinct (map fst ?p)" by (rule checkPropagation_distinct)
  have k: "set (map fst ?p) = snd ` set RESOLVERS"
    using checkPropagation_keys [of env settled domain t] assms(2) by simp
  have l: "length ?p = length RESOLVERS"
    using length_obj_distinct [OF d] k card_resolver_urls by (simp add: RESOLVERS_def)
  have m: "\<forall>(nm, url) \<in> set RESOLVERS.
      map_of ?p url = Some (resolver_result nm (queryDNS env domain t url))"
    using checkPropagation_lookup [OF assms(2)] by blast
  have f: "\<forall>(nm, url) \<in> set RESOLVERS. \<forall>n e.
          map_of DNS_RECORD_TYPES t = Some n \<and> encodeURIComponent env domain = Some e
            \<and> transport_failure (fetch env (queryUrl url e n)) \<longrightarrow>
          map_of ?p url
            = Some \<lparr>resolver = nm, records = [], hasError = True, error = Some ''Query failed''\<rparr>"
  proof (intro ballI, clarify)
    fix nm url n e
    assume r: "(nm, url) \<in> set RESOLVERS"
      and a: "map_of DNS_RECORD_TYPES t = Some n" "encodeURIComponent env domain = Some e"
        "transport_failure (fetch env (queryUrl url e n))"
    have "queryDNS env domain t url = None"
      by (rule queryDNS_transport_failure [OF a])
    then show "map_of ?p url
        = Some \<lparr>resolver = nm, records = [], hasError = True, error = Some ''Query failed''\<rparr>"
      using checkPropagation_lookup [OF assms(2) r, of env domain t]
      by (simp add: resolver_result_def)
  qed
  have i: "\<forall>(nm, url) \<in> set RESOLVERS. \<forall>env' settled'.
          set settled' = set RESOLVERS
            \<and> queryDNS env' domain t url = queryDNS env domain t url \<longrightarrow>
          map_of (checkPropagation env' settled' domain t) url = map_of ?p url"
  proof (intro ballI, clarify)
    fix nm url env' settled'
    assume r: "(nm, url) \<in> set RESOLVERS"
      and s: "set settled' = set RESOLVERS"
      and q: "queryDNS env' domain t url = queryDNS env domain t url"
    show "map_of (checkPropagation env' settled' domain t) url = map_of ?p url"
      using checkPropagation_lookup [OF s r, of env' domain t]
        checkPropagation_lookup [OF assms(2) r, of env domain t] q
      by simp
  qed
  show ?thesis
    by (intro conjI) (rule d, rule k, rule l, rule m, rule f, rule i)
qed

theorem checkPropagation_outcome_per_resolver_witness:
  "length (checkPropagation env_partial (rev RESOLVERS) ''example.com'' ''A'') = 3
   \<and> map_of (checkPropagation env_partial (rev RESOLVERS) ''example.com'' ''A'')
        ''https://dns.google/resolve''
       = Some \<lparr>resolver = ''GOOGLE'', records = [], hasError = True, error = Some ''Query failed''\<rparr>
   \<and> map_of (checkPropagation env_partial (rev RESOLVERS) ''example.com'' ''A'')
        ''https://cloudflare-dns.com/dns-query''
       = Some \<lparr>resolver = ''CLOUDFLARE'',
               records = [\<lparr>name = ''example.com'', rtype = 1, TTL = 3600, data = ''93.184.216.34''\<rparr>],
               hasError = False, error = None\<rparr>"
proof -
  have h1: "distinct (rev RESOLVERS)" by (simp add: RESOLVERS_def)
  have h2: "set (rev RESOLVERS) = set RESOLVERS" by simp
  have r: "(''GOOGLE'', ''https://dns.google/resolve'') \<in> set RESOLVERS"
    "(''CLOUDFLARE'', ''https://cloudflare-dns.com/dns-query'') \<in> set RESOLVERS"
    by (simp_all add: RESOLVERS_def)
  have q: "queryDNS env_partial ''example.com'' ''A'' ''https://dns.google/resolve'' = None"
    "queryDNS env_partial ''example.com'' ''A'' ''https://cloudflare-dns.com/dns-query''
       = Some a_response"
    by (simp_all add: env_partial_def dns_eval_defs)
  have l: "length RESOLVERS = 3" by (simp add: RESOLVERS_def)
  show ?thesis
    using checkPropagation_outcome_per_resolver [OF h1 h2, of env_partial "''example.com''" "''A''"]
      r q l
    by (auto simp: resolver_result_def answer_or_empty_def a_response_def)
qed

text \<open>
  Claim C5. As stated (the keys of the propagation object are the resolver names) the claim fails:
  the keys are the endpoint URLs. What holds: the keys are exactly the three endpoint URLs
  of \<open>RESOLVERS\<close>, none of them is a resolver name, and the outcome stored under a URL
  carries the name of that resolver in its \<open>resolver\<close> field.
\<close>

theorem checkPropagation_keys_are_endpoint_urls:
  assumes "set settled = set RESOLVERS"
  shows "set (map fst (checkPropagation env settled domain t))
      = {''https://cloudflare-dns.com/dns-query'', ''https://dns.google/resolve'',
         ''https://dns.quad9.net/dns-query''}
    \<and> (\<forall>(k, out) \<in> set (checkPropagation env settled domain t). (resolver out, k) \<in> set RESOLVERS)
    \<and> set (map fst (checkPropagation env settled domain t)) \<inter> set (map fst RESOLVERS) = {}"
proof -
  let ?p = "checkPropagation env settled domain t"
  have k: "set (map fst ?p) = snd ` set RESOLVERS"
    using checkPropagation_keys [of env settled domain t] assms by simp
  have k1: "set (map fst ?p)
      = {''https://cloudflare-dns.com/dns-query'', ''https://dns.google/resolve'',
         ''https://dns.quad9.net/dns-query''}"
    unfolding k by (simp add: RESOLVERS_def)
  have k3: "set (map fst ?p) \<inter> set (map fst RESOLVERS) = {}"
    unfolding k1 by (simp add: RESOLVERS_def)
  have k2: "\<forall>(k, out) \<in> set ?p. (resolver out, k) \<in> set RESOLVERS"
  proof (intro ballI, clarify)
    fix k out
    assume m: "(k, out) \<in> set ?p"
    then have "k \<in> snd ` set RESOLVERS" using k by force
    then obtain nm where r: "(nm, k) \<in> set RESOLVERS" by force
    have "map_of ?p k = Some out"
      using m checkPropagation_distinct [of env settled domain t] by simp
    then have "out = resolver_result nm (queryDNS env domain t k)"
      using checkPropagation_lookup [OF assms r, of env domain t] by simp
    then have "resolver out = nm"
      by (simp add: resolver_result_def split: option.splits)
    with r show "(resolver out, k) \<in> set RESOLVERS" by simp
  qed
  show ?thesis using k1 k2 k3 by blast
qed

theorem checkPropagation_keys_are_endpoint_urls_witness:
  "map (\<lambda>(k, out). (k, resolver out))
       (checkPropagation env_partial (rev RESOLVERS) ''example.com'' ''A'')
     = [(''https://dns.quad9.net/dns-query'', ''QUAD9''),
        (''https://dns.google/resolve'', ''GOOGLE''),
        (''https://cloudflare-dns.com/dns-query'', ''CLOUDFLARE'')]
   \<and> set (map fst (checkPropagation env_partial (rev RESOLVERS) ''example.com'' ''A''))
       = {''https://cloudflare-dns.com/dns-query'', ''https://dns.google/resolve'',
          ''https://dns.quad9.net/dns-query''}"
proof -
  have h: "set (rev RESOLVERS) = set RESOLVERS" by simp
  have "map (\<lambda>(k, out). (k, resolver out))
       (checkPropagation env_partial (rev RESOLVERS) ''example.com'' ''A'')
     = [(''https://dns.quad9.net/dns-query'', ''QUAD9''),
        (''https://dns.google/resolve'', ''GOOGLE''),
        (''https://cloudflare-dns.com/dns-query'', ''CLOUDFLARE'')]"
    by (simp add: env_partial_def a_response_def dns_eval_defs)
  then show ?thesis
    using checkPropagation_keys_are_endpoint_urls [OF h, of env_partial "''example.com''" "''A''"]
    by blast
qed

text \<open>With every request failing, the keys are the URLs and no key is a resolver name.\<close>

theorem propagation_keys_counterexample:
  "map fst (checkPropagation env_down RESOLVERS ''example.com'' ''NS'')
     = [''https://cloudflare-dns.com/dns-query'', ''https://dns.google/resolve'',
        ''https://dns.quad9.net/dns-query'']
   \<and> map fst RESOLVERS = [''CLOUDFLARE'', ''GOOGLE'', ''QUAD9'']
   \<and> \<not> set (map fst (checkPropagation env_down RESOLVERS ''example.com'' ''NS''))
         \<subseteq> set (map fst RESOLVERS)"
  by (simp add: env_down_def dns_eval_defs)

section \<open>Properties of diagnose.ts\<close>

subsection \<open>The summary\<close>

lemma severity_partition:
  "length (filter (\<lambda>i. severity i = Error) xs) + length (filter (\<lambda>i. severity i = Warning) xs)
     + length (filter (\<lambda>i. severity i = Info) xs) = length xs"
proof (induction xs)
  case Nil
  show ?case by simp
next
  case (Cons x xs)
  then show ?case by (cases "severity x") simp_all
qed

text \<open>
  Claim C1. For every input, the three counts of the summary add up to the number of issues, and
  each count is the number of issues of its severity.
\<close>

theorem analyzeDNS_summary_counts:
  "errors (summary (analyzeDNS r d)) + warnings (summary (analyzeDNS r d))
     + info (summary (analyzeDNS r d)) = length (issues (analyzeDNS r d))
   \<and> errors (summary (analyzeDNS r d))
       = length (filter (\<lambda>i. severity i = Error) (issues (analyzeDNS r d)))
   \<and> warnings (summary (analyzeDNS r d))
       = length (filter (\<lambda>i. severity i = Warning) (issues (analyzeDNS r d)))
   \<and> info (summary (analyzeDNS r d))
       = length (filter (\<lambda>i. severity i = Info) (issues (analyzeDNS r d)))"
  by (simp add: analyzeDNS_def Let_def severity_partition)

theorem analyzeDNS_summary_counts_witness:
  "length (issues (analyzeDNS example_results ''example.com'')) = 4
   \<and> errors (summary (analyzeDNS example_results ''example.com''))
       + warnings (summary (analyzeDNS example_results ''example.com''))
       + info (summary (analyzeDNS example_results ''example.com'')) = 4"
proof -
  have "length (issues (analyzeDNS example_results ''example.com'')) = 4"
    by (simp add: example_results_def eval_defs)
  then show ?thesis
    using analyzeDNS_summary_counts [of example_results "''example.com''"] by simp
qed

subsection \<open>Which rule emits which issue type\<close>

lemma issues_of_type_append [simp]:
  "issues_of_type t (xs @ ys) = issues_of_type t xs @ issues_of_type t ys"
  by (simp add: issues_of_type_def)

lemma issues_of_type_none: "(\<And>i. i \<in> set xs \<Longrightarrow> type i \<noteq> t) \<Longrightarrow> issues_of_type t xs = []"
  by (simp add: issues_of_type_def filter_empty_conv)

lemma issues_of_type_all: "(\<And>i. i \<in> set xs \<Longrightarrow> type i = t) \<Longrightarrow> issues_of_type t xs = xs"
  by (simp add: issues_of_type_def filter_id_conv)

lemma type_checkNSMismatch: "i \<in> set (checkNSMismatch r) \<Longrightarrow> type i = ''ns_mismatch''"
  by (auto simp: checkNSMismatch_def Let_def split: option.splits if_splits prod.splits)

lemma type_checkCNAMEAtApex: "i \<in> set (checkCNAMEAtApex r) \<Longrightarrow> type i = ''cname_at_apex''"
  by (auto simp: checkCNAMEAtApex_def Let_def split: option.splits if_splits)

lemma type_checkMissingAAAA: "i \<in> set (checkMissingAAAA r) \<Longrightarrow> type i = ''missing_aaaa''"
  by (auto simp: checkMissingAAAA_def Let_def split: option.splits if_splits)

lemma type_checkEmailSetup:
  "i \<in> set (checkEmailSetup r) \<Longrightarrow>
     type i = ''missing_email_setup'' \<or> type i = ''missing_spf'' \<or> type i = ''missing_dmarc''"
  by (auto simp: checkEmailSetup_def Let_def split: if_splits)

lemma type_spf_loop: "i \<in> set (spf_loop rs) \<Longrightarrow> type i = ''spf_syntax_error''"
  by (induction rs) (auto simp: spf_issue_def split: if_splits)

lemma type_checkSPFSyntax: "i \<in> set (checkSPFSyntax r) \<Longrightarrow> type i = ''spf_syntax_error''"
  by (auto simp: checkSPFSyntax_def Let_def dest: type_spf_loop split: option.splits if_splits)

lemma type_checkTTL:
  "i \<in> set (checkTTL r) \<Longrightarrow> type i = ''ttl_too_low'' \<or> type i = ''ttl_too_high''"
  by (auto simp: checkTTL_def ttl_issues_def Let_def split: if_splits)

lemma type_checkDNSSEC: "i \<in> set (checkDNSSEC r d) \<Longrightarrow> type i = ''dnssec_check''"
  by (simp add: checkDNSSEC_def)

lemma ns_mismatch_issues:
  "issues_of_type ''ns_mismatch'' (issues (analyzeDNS r d)) = checkNSMismatch r"
proof -
  have "issues_of_type ''ns_mismatch'' (checkNSMismatch r) = checkNSMismatch r"
    by (rule issues_of_type_all) (rule type_checkNSMismatch)
  moreover have "issues_of_type ''ns_mismatch'' (checkCNAMEAtApex r) = []"
    by (rule issues_of_type_none) (auto dest: type_checkCNAMEAtApex)
  moreover have "issues_of_type ''ns_mismatch'' (checkMissingAAAA r) = []"
    by (rule issues_of_type_none) (auto dest: type_checkMissingAAAA)
  moreover have "issues_of_type ''ns_mismatch'' (checkEmailSetup r) = []"
    by (rule issues_of_type_none) (auto dest: type_checkEmailSetup)
  moreover have "issues_of_type ''ns_mismatch'' (checkSPFSyntax r) = []"
    by (rule issues_of_type_none) (auto dest: type_checkSPFSyntax)
  moreover have "issues_of_type ''ns_mismatch'' (checkTTL r) = []"
    by (rule issues_of_type_none) (auto dest: type_checkTTL)
  moreover have "issues_of_type ''ns_mismatch'' (checkDNSSEC r d) = []"
    by (rule issues_of_type_none) (auto dest: type_checkDNSSEC)
  ultimately show ?thesis
    by (simp add: analyzeDNS_def Let_def all_issues_def)
qed

lemma spf_syntax_error_issues:
  "issues_of_type ''spf_syntax_error'' (issues (analyzeDNS r d)) = checkSPFSyntax r"
proof -
  have "issues_of_type ''spf_syntax_error'' (checkSPFSyntax r) = checkSPFSyntax r"
    by (rule issues_of_type_all) (rule type_checkSPFSyntax)
  moreover have "issues_of_type ''spf_syntax_error'' (checkCNAMEAtApex r) = []"
    by (rule issues_of_type_none) (auto dest: type_checkCNAMEAtApex)
  moreover have "issues_of_type ''spf_syntax_error'' (checkMissingAAAA r) = []"
    by (rule issues_of_type_none) (auto dest: type_checkMissingAAAA)
  moreover have "issues_of_type ''spf_syntax_error'' (checkEmailSetup r) = []"
    by (rule issues_of_type_none) (auto dest: type_checkEmailSetup)
  moreover have "issues_of_type ''spf_syntax_error'' (checkNSMismatch r) = []"
    by (rule issues_of_type_none) (auto dest: type_checkNSMismatch)
  moreover have "issues_of_type ''spf_syntax_error'' (checkTTL r) = []"
    by (rule issues_of_type_none) (auto dest: type_checkTTL)
  moreover have "issues_of_type ''spf_syntax_error'' (checkDNSSEC r d) = []"
    by (rule issues_of_type_none) (auto dest: type_checkDNSSEC)
  ultimately show ?thesis
    by (simp add: analyzeDNS_def Let_def all_issues_def)
qed

lemma email_issues:
  assumes "t = ''missing_email_setup'' \<or> t = ''missing_spf'' \<or> t = ''missing_dmarc''"
  shows "issues_of_type t (issues (analyzeDNS r d)) = issues_of_type t (checkEmailSetup r)"
proof -
  have "issues_of_type t (checkNSMismatch r) = []"
    by (rule issues_of_type_none) (use assms in \<open>auto dest: type_checkNSMismatch\<close>)
  moreover have "issues_of_type t (checkCNAMEAtApex r) = []"
    by (rule issues_of_type_none) (use assms in \<open>auto dest: type_checkCNAMEAtApex\<close>)
  moreover have "issues_of_type t (checkMissingAAAA r) = []"
    by (rule issues_of_type_none) (use assms in \<open>auto dest: type_checkMissingAAAA\<close>)
  moreover have "issues_of_type t (checkSPFSyntax r) = []"
    by (rule issues_of_type_none) (use assms in \<open>auto dest: type_checkSPFSyntax\<close>)
  moreover have "issues_of_type t (checkTTL r) = []"
    by (rule issues_of_type_none) (use assms in \<open>auto dest: type_checkTTL\<close>)
  moreover have "issues_of_type t (checkDNSSEC r d) = []"
    by (rule issues_of_type_none) (use assms in \<open>auto dest: type_checkDNSSEC\<close>)
  ultimately show ?thesis
    by (simp add: analyzeDNS_def Let_def all_issues_def)
qed

subsection \<open>NS consistency\<close>

lemma ns_differs_new_Set:
  "ns_differs (new_Set xs) (new_Set ys) \<longleftrightarrow> set xs \<noteq> set ys"
proof
  assume d: "ns_differs (new_Set xs) (new_Set ys)"
  show "set xs \<noteq> set ys"
  proof
    assume e: "set xs = set ys"
    then have "length (new_Set xs) = length (new_Set ys)" by (simp add: length_new_Set)
    moreover have "list_all (\<lambda>ns. ns \<in> set (new_Set ys)) (new_Set xs)"
      using e by (simp add: list_all_iff)
    ultimately show False using d by (simp add: ns_differs_def)
  qed
next
  assume n: "set xs \<noteq> set ys"
  show "ns_differs (new_Set xs) (new_Set ys)"
  proof (rule ccontr)
    assume "\<not> ns_differs (new_Set xs) (new_Set ys)"
    then have c: "card (set xs) = card (set ys)" and s: "set xs \<subseteq> set ys"
      by (auto simp: ns_differs_def length_new_Set list_all_iff)
    have "set xs = set ys"
      by (rule card_subset_eq) (use c s in simp_all)
    with n show False by simp
  qed
qed

lemma ns_loop_flag:
  "snd (ns_loop P entries (acc, b)) \<longleftrightarrow>
     b \<or> (\<exists>(k, res) \<in> set entries. \<not> hasError res
            \<and> ns_differs (new_Set (map (\<lambda>r. toLowerCase (data r)) (records res))) P)"
proof (induction entries arbitrary: acc b)
  case Nil
  show ?case by simp
next
  case (Cons e entries)
  obtain k res where e: "e = (k, res)" by (cases e)
  show ?case
  proof (cases "hasError res")
    case True
    show ?thesis using True e Cons.IH [of acc b] by simp
  next
    case False
    let ?s = "new_Set (map (\<lambda>r. toLowerCase (data r)) (records res))"
    show ?thesis
      using False e Cons.IH [of "obj_set acc k ?s" "if ns_differs ?s P then True else b"]
      by (simp add: Let_def)
  qed
qed

lemma ns_loop_obj:
  "distinct (map fst entries) \<Longrightarrow> fst ` set acc \<inter> fst ` set entries = {} \<Longrightarrow>
   fst (ns_loop P entries (acc, b)) =
     acc @ map (\<lambda>(k, res). (k, new_Set (map (\<lambda>r. toLowerCase (data r)) (records res))))
              (filter (\<lambda>(k, res). \<not> hasError res) entries)"
proof (induction entries arbitrary: acc b)
  case Nil
  show ?case by simp
next
  case (Cons e entries)
  obtain k res where e: "e = (k, res)" by (cases e)
  show ?case
  proof (cases "hasError res")
    case True
    with Cons e show ?thesis by auto
  next
    case False
    have fresh: "k \<notin> fst ` set acc" using Cons.prems e by auto
    have d: "distinct (map fst entries)" using Cons.prems by simp
    have disj: "fst ` set (acc @ [(k, new_Set (map (\<lambda>r. toLowerCase (data r)) (records res)))])
                  \<inter> fst ` set entries = {}"
      using Cons.prems e by auto
    show ?thesis
      using False e Cons.IH [OF d disj]
      by (simp add: Let_def obj_set_fresh [OF fresh])
  qed
qed

lemma ns_loop_skip_failed:
  "ns_loop P (filter (\<lambda>(k, res). \<not> hasError res) entries) st = ns_loop P entries st"
proof (induction entries arbitrary: st)
  case Nil
  show ?case by simp
next
  case (Cons e entries)
  obtain k res where e: "e = (k, res)" by (cases e)
  obtain acc b where st: "st = (acc, b)" by (cases st)
  show ?case using Cons e st by (simp add: Let_def)
qed

lemma checkNSMismatch_Some:
  assumes "map_of r ''NS'' = Some ns" "primaryRecords ns \<noteq> []"
  shows "checkNSMismatch r =
     (let P = new_Set (map (\<lambda>x. toLowerCase (data x)) (primaryRecords ns)) in
      if snd (ns_loop P (propagation ns) ([], False))
      then [\<lparr>type = ''ns_mismatch'', severity = Error,
             message = ''NS records differ across DNS resolvers'',
             details = Some (NSDetails P (fst (ns_loop P (propagation ns) ([], False))))\<rparr>]
      else [])"
  using assms by (simp add: checkNSMismatch_def Let_def split: prod.splits)

lemma checkNSMismatch_flag:
  assumes "map_of r ''NS'' = Some ns" "primaryRecords ns \<noteq> []"
  shows "checkNSMismatch r \<noteq> [] \<longleftrightarrow>
     (\<exists>(k, res) \<in> set (propagation ns). \<not> hasError res
        \<and> set (map (\<lambda>x. toLowerCase (data x)) (records res))
            \<noteq> set (map (\<lambda>x. toLowerCase (data x)) (primaryRecords ns)))"
  by (simp add: checkNSMismatch_Some [OF assms] Let_def ns_loop_flag ns_differs_new_Set)

text \<open>
  Claim C6. As stated (any propagation resolver whose NS set differs from the primary one) the claim
  fails on an empty primary list and on a failure-marked resolver. What holds: when the
  primary NS list is non-empty and some resolver that is not failure-marked has a
  lower-cased NS set of different membership, the report contains exactly one
  \<open>ns_mismatch\<close> issue, of severity error, whose details carry the primary set and the
  set of every resolver that is not failure-marked.
\<close>

theorem ns_mismatch_single_issue:
  assumes "map_of r ''NS'' = Some ns"
    and "primaryRecords ns \<noteq> []"
    and "distinct (map fst (propagation ns))"
    and "(k, res) \<in> set (propagation ns)"
    and "\<not> hasError res"
    and "set (map (\<lambda>x. toLowerCase (data x)) (records res))
           \<noteq> set (map (\<lambda>x. toLowerCase (data x)) (primaryRecords ns))"
  shows "filter (\<lambda>i. type i = ''ns_mismatch'') (issues (analyzeDNS r d)) =
     [\<lparr>type = ''ns_mismatch'', severity = Error,
       message = ''NS records differ across DNS resolvers'',
       details = Some (NSDetails
         (new_Set (map (\<lambda>x. toLowerCase (data x)) (primaryRecords ns)))
         (map (\<lambda>(k, res). (k, new_Set (map (\<lambda>x. toLowerCase (data x)) (records res))))
            (filter (\<lambda>(k, res). \<not> hasError res) (propagation ns))))\<rparr>]"
proof -
  let ?P = "new_Set (map (\<lambda>x. toLowerCase (data x)) (primaryRecords ns))"
  have ne: "checkNSMismatch r \<noteq> []"
    unfolding checkNSMismatch_flag [OF assms(1,2)] using assms(4,5,6) by blast
  have obj: "fst (ns_loop ?P (propagation ns) ([], False)) =
      map (\<lambda>(k, res). (k, new_Set (map (\<lambda>x. toLowerCase (data x)) (records res))))
        (filter (\<lambda>(k, res). \<not> hasError res) (propagation ns))"
    using ns_loop_obj [OF assms(3), of "[]" ?P False] by simp
  have "checkNSMismatch r =
     [\<lparr>type = ''ns_mismatch'', severity = Error,
       message = ''NS records differ across DNS resolvers'',
       details = Some (NSDetails ?P (fst (ns_loop ?P (propagation ns) ([], False))))\<rparr>]"
    using ne by (simp add: checkNSMismatch_Some [OF assms(1,2)] Let_def split: if_splits)
  then show ?thesis
    using ns_mismatch_issues [of r d] obj by (simp add: issues_of_type_def)
qed

theorem ns_mismatch_single_issue_witness:
  "filter (\<lambda>i. type i = ''ns_mismatch'') (issues (analyzeDNS ns_divergent_results ''example.com''))
     = [\<lparr>type = ''ns_mismatch'', severity = Error,
         message = ''NS records differ across DNS resolvers'',
         details = Some (NSDetails [''ns1.example.com'', ''ns2.example.com'']
                           [(''https://dns.google/resolve'', [''ns3.example.com''])])\<rparr>]"
proof -
  let ?res = "\<lparr>resolver = ''GOOGLE'', records = [ns_rec ''ns3.example.com''],
               hasError = False, error = None\<rparr>"
  have h1: "map_of ns_divergent_results ''NS'' = Some ns_divergent_entry"
    by (simp add: ns_divergent_results_def)
  have h2: "primaryRecords ns_divergent_entry \<noteq> []"
    by (simp add: ns_divergent_entry_def)
  have h3: "distinct (map fst (propagation ns_divergent_entry))"
    by (simp add: ns_divergent_entry_def)
  have h4: "(''https://dns.google/resolve'', ?res) \<in> set (propagation ns_divergent_entry)"
    by (simp add: ns_divergent_entry_def)
  have h5: "\<not> hasError ?res" by simp
  have h6: "set (map (\<lambda>x. toLowerCase (data x)) (records ?res))
      \<noteq> set (map (\<lambda>x. toLowerCase (data x)) (primaryRecords ns_divergent_entry))"
    by (simp add: ns_divergent_entry_def ns_rec_def toLowerCase_def toLowerCase_char_def)
  show ?thesis
    using ns_mismatch_single_issue [OF h1 h2 h3 h4 h5 h6, of "''example.com''"]
    by (simp add: ns_divergent_entry_def ns_rec_def toLowerCase_def toLowerCase_char_def
        new_Set_def Set_add_def)
qed

text \<open>
  Two inputs on which a resolver's set differs from the primary one and no issue is
  emitted: no primary record at all, and a resolver that failed.
\<close>

theorem ns_mismatch_claim_counterexample:
  "map_of ns_empty_primary_results ''NS'' =
     Some \<lparr>recordType = ''NS'', primaryRecords = [],
           propagation =
             [(''https://dns.google/resolve'',
               \<lparr>resolver = ''GOOGLE'', records = [ns_rec ''ns3.example.com''],
                hasError = False, error = None\<rparr>)]\<rparr>
   \<and> set (map (\<lambda>x. toLowerCase (data x)) [ns_rec ''ns3.example.com''])
       \<noteq> set (map (\<lambda>x. toLowerCase (data x)) [])
   \<and> filter (\<lambda>i. type i = ''ns_mismatch'')
        (issues (analyzeDNS ns_empty_primary_results ''example.com'')) = []
   \<and> map_of ns_failed_resolver_results ''NS'' =
     Some \<lparr>recordType = ''NS'',
           primaryRecords = [ns_rec ''ns1.example.com'', ns_rec ''ns2.example.com''],
           propagation =
             [(''https://dns.google/resolve'',
               \<lparr>resolver = ''GOOGLE'', records = [],
                hasError = True, error = Some ''Query failed''\<rparr>)]\<rparr>
   \<and> set (map (\<lambda>x. toLowerCase (data x)) [])
       \<noteq> set (map (\<lambda>x. toLowerCase (data x))
                 [ns_rec ''ns1.example.com'', ns_rec ''ns2.example.com''])
   \<and> filter (\<lambda>i. type i = ''ns_mismatch'')
        (issues (analyzeDNS ns_failed_resolver_results ''example.com'')) = []"
  by (simp add: ns_empty_primary_results_def ns_failed_resolver_results_def eval_defs)

text \<open>
  Claim C10. Failure-marked resolvers are skipped: removing them from every propagation object
  leaves the \<open>ns_mismatch\<close> issues unchanged, and an \<open>ns_mismatch\<close> issue is emitted
  only if the primary NS list is non-empty and a resolver that is not failure-marked
  differs from it. With an empty primary NS list there is no such issue, whatever the
  resolvers report.
\<close>

theorem ns_mismatch_skips_failed_and_empty_primary:
  "filter (\<lambda>i. type i = ''ns_mismatch'')
      (issues (analyzeDNS
         (map (\<lambda>(t, q). (t, q\<lparr>propagation := filter (\<lambda>(k, res). \<not> hasError res) (propagation q)\<rparr>)) r) d))
     = filter (\<lambda>i. type i = ''ns_mismatch'') (issues (analyzeDNS r d))
   \<and> (filter (\<lambda>i. type i = ''ns_mismatch'') (issues (analyzeDNS r d)) \<noteq> [] \<longrightarrow>
        (\<exists>ns. map_of r ''NS'' = Some ns \<and> primaryRecords ns \<noteq> []
           \<and> (\<exists>(k, res) \<in> set (propagation ns). \<not> hasError res
                \<and> set (map (\<lambda>x. toLowerCase (data x)) (records res))
                    \<noteq> set (map (\<lambda>x. toLowerCase (data x)) (primaryRecords ns)))))
   \<and> ((\<forall>ns. map_of r ''NS'' = Some ns \<longrightarrow> primaryRecords ns = []) \<longrightarrow>
        filter (\<lambda>i. type i = ''ns_mismatch'') (issues (analyzeDNS r d)) = [])"
proof -
  let ?f = "\<lambda>q. q\<lparr>propagation := filter (\<lambda>(k, res). \<not> hasError res) (propagation q)\<rparr>"
  let ?r' = "map (\<lambda>(t, q). (t, ?f q)) r"
  have mo: "map_of ?r' ''NS'' = map_option ?f (map_of r ''NS'')"
    by (induction r) auto
  have skip: "checkNSMismatch ?r' = checkNSMismatch r"
    unfolding checkNSMismatch_def mo
    by (cases "map_of r ''NS''") (simp_all add: ns_loop_skip_failed)
  have only: "checkNSMismatch r \<noteq> [] \<longrightarrow>
        (\<exists>ns. map_of r ''NS'' = Some ns \<and> primaryRecords ns \<noteq> []
           \<and> (\<exists>(k, res) \<in> set (propagation ns). \<not> hasError res
                \<and> set (map (\<lambda>x. toLowerCase (data x)) (records res))
                    \<noteq> set (map (\<lambda>x. toLowerCase (data x)) (primaryRecords ns))))"
  proof
    assume ne: "checkNSMismatch r \<noteq> []"
    then obtain ns where ns: "map_of r ''NS'' = Some ns"
      by (cases "map_of r ''NS''") (auto simp: checkNSMismatch_def)
    have pr: "primaryRecords ns \<noteq> []"
      using ne ns by (auto simp: checkNSMismatch_def)
    show "\<exists>ns. map_of r ''NS'' = Some ns \<and> primaryRecords ns \<noteq> []
           \<and> (\<exists>(k, res) \<in> set (propagation ns). \<not> hasError res
                \<and> set (map (\<lambda>x. toLowerCase (data x)) (records res))
                    \<noteq> set (map (\<lambda>x. toLowerCase (data x)) (primaryRecords ns)))"
      using ne ns pr checkNSMismatch_flag [OF ns pr] by blast
  qed
  have empty: "(\<forall>ns. map_of r ''NS'' = Some ns \<longrightarrow> primaryRecords ns = []) \<longrightarrow> checkNSMismatch r = []"
    by (cases "map_of r ''NS''") (auto simp: checkNSMismatch_def)
  have a: "\<And>r. filter (\<lambda>i. type i = ''ns_mismatch'') (issues (analyzeDNS r d)) = checkNSMismatch r"
    using ns_mismatch_issues by (simp add: issues_of_type_def)
  show ?thesis
    unfolding a using skip only empty by blast
qed

theorem ns_mismatch_skips_failed_and_empty_primary_witness:
  "filter (\<lambda>i. type i = ''ns_mismatch'')
      (issues (analyzeDNS ns_failed_with_records_results ''example.com'')) = []
   \<and> filter (\<lambda>i. type i = ''ns_mismatch'')
      (issues (analyzeDNS ns_empty_primary_results ''example.com'')) = []"
  using ns_mismatch_skips_failed_and_empty_primary [of ns_failed_with_records_results "''example.com''"]
    ns_mismatch_skips_failed_and_empty_primary [of ns_empty_primary_results "''example.com''"]
  by (simp add: ns_failed_with_records_results_def ns_empty_primary_results_def)

subsection \<open>Email setup\<close>

lemma has_records_iff: "has_records (map_of r t) \<longleftrightarrow> records_of r t \<noteq> []"
  by (simp add: has_records_def records_of_def split: option.splits)

lemma hasSPF_iff:
  "hasSPF (map_of r ''TXT'') \<longleftrightarrow>
     (\<exists>rec \<in> set (records_of r ''TXT''). startsWith (toLowerCase (data rec)) ''v=spf1'')"
  by (auto simp: hasSPF_def records_of_def list_ex_iff split: option.splits)

lemma hasDMARC_iff:
  "hasDMARC (map_of r ''TXT'') \<longleftrightarrow>
     (\<exists>rec \<in> set (records_of r ''TXT''). startsWith (toLowerCase (data rec)) ''v=dmarc1'')"
  by (auto simp: hasDMARC_def records_of_def list_ex_iff split: option.splits)

text \<open>
  Claim C7. The report contains one \<open>missing_email_setup\<close> info issue when there are neither MX
  nor TXT primary records, and none otherwise; one \<open>missing_spf\<close> warning exactly when
  there are MX records and no TXT payload starts, without regard to case, with
  \<open>v=spf1\<close>; one \<open>missing_dmarc\<close> info exactly when there are MX records and no TXT
  payload starts, without regard to case, with \<open>v=dmarc1\<close>. Hence the last two never
  occur together with the first.
\<close>

theorem email_setup_rule:
  "filter (\<lambda>i. type i = ''missing_email_setup'') (issues (analyzeDNS r d)) =
     (if records_of r ''MX'' = [] \<and> records_of r ''TXT'' = []
      then [\<lparr>type = ''missing_email_setup'', severity = Info,
             message = ''No MX or TXT records found - domain may not be configured for email'',
             details = None\<rparr>]
      else [])
   \<and> filter (\<lambda>i. type i = ''missing_spf'') (issues (analyzeDNS r d)) =
     (if records_of r ''MX'' \<noteq> []
         \<and> (\<forall>rec \<in> set (records_of r ''TXT''). \<not> startsWith (toLowerCase (data rec)) ''v=spf1'')
      then [\<lparr>type = ''missing_spf'', severity = Warning,
             message = ''MX records present but no SPF record found'',
             details = None\<rparr>]
      else [])
   \<and> filter (\<lambda>i. type i = ''missing_dmarc'') (issues (analyzeDNS r d)) =
     (if records_of r ''MX'' \<noteq> []
         \<and> (\<forall>rec \<in> set (records_of r ''TXT''). \<not> startsWith (toLowerCase (data rec)) ''v=dmarc1'')
      then [\<lparr>type = ''missing_dmarc'', severity = Info,
             message = ''MX records present but no DMARC record found'',
             details = None\<rparr>]
      else [])"
proof -
  have a: "\<And>t. t = ''missing_email_setup'' \<or> t = ''missing_spf'' \<or> t = ''missing_dmarc'' \<Longrightarrow>
     filter (\<lambda>i. type i = t) (issues (analyzeDNS r d)) = filter (\<lambda>i. type i = t) (checkEmailSetup r)"
    using email_issues [of _ r d] by (simp add: issues_of_type_def)
  have e1: "filter (\<lambda>i. type i = ''missing_email_setup'') (checkEmailSetup r) =
     (if records_of r ''MX'' = [] \<and> records_of r ''TXT'' = []
      then [\<lparr>type = ''missing_email_setup'', severity = Info,
             message = ''No MX or TXT records found - domain may not be configured for email'',
             details = None\<rparr>]
      else [])"
    by (simp add: checkEmailSetup_def Let_def has_records_iff)
  have e2: "filter (\<lambda>i. type i = ''missing_spf'') (checkEmailSetup r) =
     (if records_of r ''MX'' \<noteq> []
         \<and> (\<forall>rec \<in> set (records_of r ''TXT''). \<not> startsWith (toLowerCase (data rec)) ''v=spf1'')
      then [\<lparr>type = ''missing_spf'', severity = Warning,
             message = ''MX records present but no SPF record found'',
             details = None\<rparr>]
      else [])"
    by (simp add: checkEmailSetup_def Let_def has_records_iff hasSPF_iff)
  have e3: "filter (\<lambda>i. type i = ''missing_dmarc'') (checkEmailSetup r) =
     (if records_of r ''MX'' \<noteq> []
         \<and> (\<forall>rec \<in> set (records_of r ''TXT''). \<not> startsWith (toLowerCase (data rec)) ''v=dmarc1'')
      then [\<lparr>type = ''missing_dmarc'', severity = Info,
             message = ''MX records present but no DMARC record found'',
             details = None\<rparr>]
      else [])"
    by (simp add: checkEmailSetup_def Let_def has_records_iff hasDMARC_iff)
  have a1: "filter (\<lambda>i. type i = ''missing_email_setup'') (issues (analyzeDNS r d))
      = filter (\<lambda>i. type i = ''missing_email_setup'') (checkEmailSetup r)"
    by (rule a) simp
  have a2: "filter (\<lambda>i. type i = ''missing_spf'') (issues (analyzeDNS r d))
      = filter (\<lambda>i. type i = ''missing_spf'') (checkEmailSetup r)"
    by (rule a) simp
  have a3: "filter (\<lambda>i. type i = ''missing_dmarc'') (issues (analyzeDNS r d))
      = filter (\<lambda>i. type i = ''missing_dmarc'') (checkEmailSetup r)"
    by (rule a) simp
  show ?thesis
    unfolding a1 a2 a3 using e1 e2 e3 by blast
qed

theorem email_setup_rule_witness:
  "filter (\<lambda>i. type i = ''missing_email_setup'') (issues (analyzeDNS all_empty_results ''example.com''))
     = [\<lparr>type = ''missing_email_setup'', severity = Info,
         message = ''No MX or TXT records found - domain may not be configured for email'',
         details = None\<rparr>]
   \<and> filter (\<lambda>i. type i = ''missing_spf'') (issues (analyzeDNS all_empty_results ''example.com'')) = []
   \<and> filter (\<lambda>i. type i = ''missing_dmarc'') (issues (analyzeDNS all_empty_results ''example.com'')) = []
   \<and> filter (\<lambda>i. type i = ''missing_email_setup'') (issues (analyzeDNS mx_only_results ''example.com'')) = []
   \<and> filter (\<lambda>i. type i = ''missing_spf'') (issues (analyzeDNS mx_only_results ''example.com''))
     = [\<lparr>type = ''missing_spf'', severity = Warning,
         message = ''MX records present but no SPF record found'', details = None\<rparr>]
   \<and> filter (\<lambda>i. type i = ''missing_dmarc'') (issues (analyzeDNS mx_only_results ''example.com''))
     = [\<lparr>type = ''missing_dmarc'', severity = Info,
         message = ''MX records present but no DMARC record found'', details = None\<rparr>]"
proof -
  have a: "records_of all_empty_results ''MX'' = []" "records_of all_empty_results ''TXT'' = []"
    by (simp_all add: records_of_def all_empty_results_def QUERY_RECORD_TYPES_def)
  have b: "records_of mx_only_results ''MX'' = [mx_rec ''10 mail.example.com.'']"
    "records_of mx_only_results ''TXT'' = []"
    by (simp_all add: records_of_def mx_only_results_def)
  show ?thesis
    using email_setup_rule [of all_empty_results "''example.com''"]
      email_setup_rule [of mx_only_results "''example.com''"]
    by (simp add: a b)
qed

subsection \<open>SPF syntax\<close>

lemma spf_loop_eq:
  "spf_loop rs = map spf_issue (filter (\<lambda>rec. \<not> validateSPF (data rec)) rs)"
  by (induction rs) simp_all

lemma checkSPFSyntax_eq:
  "checkSPFSyntax r =
     map spf_issue
       (filter (\<lambda>rec. startsWith (toLowerCase (data rec)) ''v=spf1'' \<and> \<not> validateSPF (data rec))
          (records_of r ''TXT''))"
proof (cases "map_of r ''TXT''")
  case None
  then show ?thesis by (simp add: checkSPFSyntax_def records_of_def)
next
  case (Some q)
  have "filter (\<lambda>rec. \<not> validateSPF (data rec))
          (filter (\<lambda>rec. startsWith (toLowerCase (data rec)) ''v=spf1'') (primaryRecords q))
        = filter (\<lambda>rec. startsWith (toLowerCase (data rec)) ''v=spf1'' \<and> \<not> validateSPF (data rec))
          (primaryRecords q)"
    by (simp add: conj_commute)
  then show ?thesis
    using Some by (simp add: checkSPFSyntax_def records_of_def spf_loop_eq Let_def)
qed

lemma validateSPF_good: "validateSPF ''v=spf1 include:_spf.example.com -all''"
  by code_simp

lemma validateSPF_frobnicate: "\<not> validateSPF ''v=spf1 frobnicate''"
  by code_simp

lemma validateSPF_many: "\<not> validateSPF ''v=spf1 frobnicate bogus +nope''"
  by code_simp

lemma tag_frobnicate: "startsWith (toLowerCase ''v=spf1 frobnicate'') ''v=spf1''"
  by code_simp

lemma tag_many: "startsWith (toLowerCase ''v=spf1 frobnicate bogus +nope'') ''v=spf1''"
  by code_simp

text \<open>
  Claim C8. The \<open>spf_syntax_error\<close> issues of the report are one error issue per offending TXT
  record (a record with the SPF tag that \<open>validateSPF\<close> rejects), in record order and
  carrying the record text, however many of its tokens fail. A single record
  \<open>v=spf1 include:_spf.example.com -all\<close> gives none; a single record
  \<open>v=spf1 frobnicate\<close> gives exactly one, and so does a record with three bad tokens.
\<close>

theorem spf_syntax_rule:
  "filter (\<lambda>i. type i = ''spf_syntax_error'') (issues (analyzeDNS r d)) =
     map (\<lambda>rec. \<lparr>type = ''spf_syntax_error'', severity = Error,
                 message = ''SPF record has syntax errors'',
                 details = Some (SPFDetails (data rec))\<rparr>)
       (filter (\<lambda>rec. startsWith (toLowerCase (data rec)) ''v=spf1'' \<and> \<not> validateSPF (data rec))
          (records_of r ''TXT''))
   \<and> (records_of r ''TXT'' = [rec] \<and> data rec = ''v=spf1 include:_spf.example.com -all'' \<longrightarrow>
        filter (\<lambda>i. type i = ''spf_syntax_error'') (issues (analyzeDNS r d)) = [])
   \<and> (records_of r ''TXT'' = [rec] \<and> data rec = ''v=spf1 frobnicate'' \<longrightarrow>
        filter (\<lambda>i. type i = ''spf_syntax_error'') (issues (analyzeDNS r d)) =
          [\<lparr>type = ''spf_syntax_error'', severity = Error,
            message = ''SPF record has syntax errors'',
            details = Some (SPFDetails ''v=spf1 frobnicate'')\<rparr>])
   \<and> (records_of r ''TXT'' = [rec] \<and> data rec = ''v=spf1 frobnicate bogus +nope'' \<longrightarrow>
        filter (\<lambda>i. type i = ''spf_syntax_error'') (issues (analyzeDNS r d)) =
          [\<lparr>type = ''spf_syntax_error'', severity = Error,
            message = ''SPF record has syntax errors'',
            details = Some (SPFDetails ''v=spf1 frobnicate bogus +nope'')\<rparr>])"
proof -
  have a: "filter (\<lambda>i. type i = ''spf_syntax_error'') (issues (analyzeDNS r d)) = checkSPFSyntax r"
    using spf_syntax_error_issues [of r d] by (simp add: issues_of_type_def)
  have m: "map spf_issue = map (\<lambda>rec. \<lparr>type = ''spf_syntax_error'', severity = Error,
                 message = ''SPF record has syntax errors'',
                 details = Some (SPFDetails (data rec))\<rparr>)"
    by (simp add: spf_issue_def fun_eq_iff)
  show ?thesis
    unfolding a checkSPFSyntax_eq m
    using validateSPF_good validateSPF_frobnicate validateSPF_many tag_frobnicate tag_many
    by simp
qed

theorem spf_syntax_rule_witness:
  "records_of example_results ''TXT'' = [txt_rec ''v=spf1 frobnicate'']
   \<and> filter (\<lambda>i. type i = ''spf_syntax_error'') (issues (analyzeDNS example_results ''example.com''))
     = [\<lparr>type = ''spf_syntax_error'', severity = Error,
         message = ''SPF record has syntax errors'',
         details = Some (SPFDetails ''v=spf1 frobnicate'')\<rparr>]"
proof -
  have a: "records_of example_results ''TXT'' = [txt_rec ''v=spf1 frobnicate'']"
    by (simp add: records_of_def example_results_def)
  have b: "data (txt_rec ''v=spf1 frobnicate'') = ''v=spf1 frobnicate''"
    by (simp add: txt_rec_def)
  note rule = spf_syntax_rule [of example_results "''example.com''" "txt_rec ''v=spf1 frobnicate''"]
  show ?thesis
    using rule [THEN conjunct2, THEN conjunct2, THEN conjunct1] a b by simp
qed

text \<open>
  Claim C9. A TXT record that has the SPF tag when lower-cased but does not start with the literal
  lower-case \<open>v=spf1\<close> is flagged with an \<open>spf_syntax_error\<close> issue, whatever its
  mechanisms are.
\<close>

theorem spf_uppercase_tag_flagged:
  assumes "rec \<in> set (records_of r ''TXT'')"
    and "startsWith (toLowerCase (data rec)) ''v=spf1''"
    and "\<not> startsWith (data rec) ''v=spf1''"
  shows "\<lparr>type = ''spf_syntax_error'', severity = Error,
          message = ''SPF record has syntax errors'',
          details = Some (SPFDetails (data rec))\<rparr> \<in> set (issues (analyzeDNS r d))"
proof -
  have "\<not> validateSPF (data rec)"
    using assms(3) by (simp add: validateSPF_def)
  then have "spf_issue rec \<in> set (checkSPFSyntax r)"
    using assms(1,2) by (simp add: checkSPFSyntax_eq)
  then show ?thesis
    by (simp add: analyzeDNS_def Let_def all_issues_def spf_issue_def)
qed

theorem spf_uppercase_tag_flagged_witness:
  "\<lparr>type = ''spf_syntax_error'', severity = Error,
     message = ''SPF record has syntax errors'',
     details = Some (SPFDetails ''V=spf1 include:_spf.example.com -all'')\<rparr>
     \<in> set (issues (analyzeDNS uppercase_spf_results ''example.com''))
   \<and> validateSPF (toLowerCase ''V=spf1 include:_spf.example.com -all'')"
proof -
  let ?rec = "txt_rec ''V=spf1 include:_spf.example.com -all''"
  have h1: "?rec \<in> set (records_of uppercase_spf_results ''TXT'')"
    by (simp add: records_of_def uppercase_spf_results_def)
  have h2: "startsWith (toLowerCase (data ?rec)) ''v=spf1''"
    by (simp add: txt_rec_def startsWith_def toLowerCase_def toLowerCase_char_def)
  have h3: "\<not> startsWith (data ?rec) ''v=spf1''"
    by (simp add: txt_rec_def startsWith_def)
  have v: "validateSPF (toLowerCase ''V=spf1 include:_spf.example.com -all'')"
    by code_simp
  show ?thesis
    using spf_uppercase_tag_flagged [OF h1 h2 h3, of "''example.com''"] v
    by (simp add: txt_rec_def)
qed

end
